theory Spec2Isabelle
  imports Complex_Main "HOL-Library.Log_Nat" "HOL-Library.Word" "HOL-Library.Multiset"
    "HOL-Library.Sublist"
begin

section \<open>Data model\<close>

text \<open>
  Both notebooks read a table of transactions and only ever look at two of its columns,
  \<^verbatim>\<open>timestamp\<close> and \<^verbatim>\<open>label\<close>. A row is a record with these two fields; the raw
  feature columns, which only the external feature pipeline reads, live in the record's
  extension. A dataframe is the list of its rows, in file order (duplicates allowed).

  The parquet file, not the notebooks, fixes the type of the timestamp column. Two numeric
  column types are modelled, with the arithmetic NumPy and pandas give them: \<^verbatim>\<open>int64\<close>
  (two's complement, subtraction wraps around) and \<^verbatim>\<open>float64\<close> (IEEE 754 binary64,
  with infinities and NaN for a missing entry).
\<close>

subsection \<open>Float64 values and rounding\<close>

text \<open>
  A float64 value is a finite number (kept as the exact rational it denotes), an infinity
  or NaN. The sign of zero is not kept: no comparison or sum below depends on it.
\<close>

datatype float64 = Fin rat | PInf | NInf | QNaN

text \<open>\<open>ilog2 a\<close> is the binary exponent of a positive rational \<open>a\<close>: the integer \<open>k\<close> with
  \<open>2 powi k \<le> a < 2 powi (k + 1)\<close>.\<close>

definition ilog2 :: "rat \<Rightarrow> int" where
  "ilog2 a = (let (n, d) = quotient_of a; k = bitlen n - bitlen d
              in if 2 powi k \<le> a then k else k - 1)"

text \<open>Rounding to the nearest integer, ties to the even one.\<close>

definition round_half_even :: "rat \<Rightarrow> int" where
  "round_half_even z =
     (let n = \<lfloor>z\<rfloor>; r = z - of_int n
      in if r < 1 / 2 then n else if 1 / 2 < r then n + 1 else if even n then n else n + 1)"

text \<open>
  Binary64 has a 53-bit significand and exponents from \<open>-1022\<close> to \<open>1023\<close>; below
  \<open>2 powi (-1022)\<close> the values are subnormal and keep the spacing \<open>2 powi (-1074)\<close>.
  \<open>quantum x\<close> is the spacing of the float64 values around \<open>x\<close>, \<open>nearest x\<close> the multiple
  of it nearest to \<open>x\<close> (ties to even), and \<open>rn\<close> the rounding every float64 operation
  applies to its exact result: \<open>nearest\<close>, or an infinity when that is \<open>2 ^ 1024\<close> or more
  in magnitude.
\<close>

definition expo :: "rat \<Rightarrow> int" where
  "expo x = max (ilog2 \<bar>x\<bar>) (- 1022)"

definition quantum :: "rat \<Rightarrow> rat" where
  "quantum x = 2 powi (expo x - 52)"

definition nearest :: "rat \<Rightarrow> rat" where
  "nearest x = (if x = 0 then 0 else of_int (round_half_even (x / quantum x)) * quantum x)"

definition overflow :: "rat \<Rightarrow> float64" where
  "overflow v = (if 2 ^ 1024 \<le> v then PInf else if v \<le> - (2 ^ 1024) then NInf else Fin v)"

definition rn :: "rat \<Rightarrow> float64" where
  "rn x = overflow (nearest x)"

text \<open>
  Comparison and arithmetic on float64 values: every comparison with NaN is false, and
  \<open>inf - inf\<close> and \<open>0 * inf\<close> are NaN.
\<close>

fun fle :: "float64 \<Rightarrow> float64 \<Rightarrow> bool" where
  "fle QNaN y = False"
| "fle x QNaN = False"
| "fle NInf y = True"
| "fle x PInf = True"
| "fle PInf y = False"
| "fle x NInf = False"
| "fle (Fin a) (Fin b) = (a \<le> b)"

definition fgt :: "float64 \<Rightarrow> float64 \<Rightarrow> bool" where
  "fgt x y = (x \<noteq> QNaN \<and> y \<noteq> QNaN \<and> \<not> fle x y)"

fun fneg :: "float64 \<Rightarrow> float64" where
  "fneg (Fin a) = Fin (- a)"
| "fneg PInf = NInf"
| "fneg NInf = PInf"
| "fneg QNaN = QNaN"





subsection \<open>Timestamps\<close>

text \<open>
  A timestamp cell is an \<^verbatim>\<open>int64\<close> or a \<^verbatim>\<open>float64\<close>. \<open>exact\<close> is the number a cell
  denotes; \<open>to_float64\<close> is NumPy's conversion of the cell to float64, which rounds an
  integer beyond \<open>2 ^ 53\<close>.
\<close>

datatype stamp = I64 "64 word" | F64 float64


fun to_float64 :: "stamp \<Rightarrow> float64" where
  "to_float64 (I64 w) = rn (of_int (sint w))"
| "to_float64 (F64 x) = x"







record row =
  timestamp :: stamp
  label :: string

type_synonym 'a frame = "'a row_scheme list"

section \<open>Time-based train/test split\<close>












section \<open>Downsampling the training set\<close>

text \<open>
  Keyword arguments of a library call, as the notebook writes them: a list of name and
  value.
\<close>

datatype val = VInt int | VFrac rat | VStr string | VBool bool

type_synonym kwargs = "(string \<times> val) list"

text \<open>\<^verbatim>\<open>.sample(frac=0.35, random_state=404)\<close>\<close>

definition sample_kwargs :: kwargs where
  "sample_kwargs = [(''frac'', VFrac (35 / 100)), (''random_state'', VInt 404)]"

text \<open>
  How pandas and scikit-learn choose the generator a randomized call draws from: an integer
  \<^verbatim>\<open>random_state\<close> seeds a generator of the call's own, and without one the call draws
  from the process-wide generator, whose state \<open>g\<close> differs from run to run.
\<close>

datatype 'g generator = Ambient 'g | Seeded int

definition check_random_state :: "'g \<Rightarrow> kwargs \<Rightarrow> 'g generator" where
  "check_random_state g kw =
     (case map_of kw ''random_state'' of Some (VInt s) \<Rightarrow> Seeded s | _ \<Rightarrow> Ambient g)"

text \<open>
  What \<^verbatim>\<open>DataFrame.sample\<close> draws, given its generator, is the library's business: it is
  the parameter \<open>draw\<close>.
  \<^verbatim>\<open>train = df[df['timestamp'] <= cutoff].sample(frac=0.35, random_state=404).copy()\<close>
  in the gradient-boosting notebook, \<^verbatim>\<open>train = df[df['timestamp'] <= cutoff]\<close> in
  the random-forest notebook.
\<close>

definition sample ::
  "('g generator \<Rightarrow> kwargs \<Rightarrow> 'a frame \<Rightarrow> 'a frame) \<Rightarrow> 'g \<Rightarrow> kwargs \<Rightarrow> 'a frame \<Rightarrow> 'a frame" where
  "sample draw g kw xs = draw (check_random_state g kw) kw xs"



section \<open>Class counts and the imbalance ratio\<close>

text \<open>
  \<^verbatim>\<open>fraud_count = train[train["label"] == "fraud"]["label"].count()\<close>,
  \<^verbatim>\<open>legit_count = train[train["label"] == "legitimate"]["label"].count()\<close>:
  select the rows, take the label column, count its entries.
\<close>

definition fraud_count :: "'a frame \<Rightarrow> nat" where
  "fraud_count train = length (map label (filter (\<lambda>r. label r = ''fraud'') train))"

definition legit_count :: "'a frame \<Rightarrow> nat" where
  "legit_count train = length (map label (filter (\<lambda>r. label r = ''legitimate'') train))"

text \<open>
  \<^verbatim>\<open>pct = fraud_count/legit_count\<close>. The counts are NumPy integers and \<^verbatim>\<open>/\<close> is
  NumPy's true division, which does not raise on a zero divisor: it warns and yields
  \<^verbatim>\<open>inf\<close>, or \<^verbatim>\<open>nan\<close> for \<^verbatim>\<open>0/0\<close>. The quotient of two counts is exact here.
\<close>

datatype np_float = Finite rat | PosInf | NaN

definition true_divide :: "nat \<Rightarrow> nat \<Rightarrow> np_float" where
  "true_divide a b =
     (if b = 0 then (if a = 0 then NaN else PosInf) else Finite (of_nat a / of_nat b))"

definition pct :: "'a frame \<Rightarrow> np_float" where
  "pct train = true_divide (fraud_count train) (legit_count train)"

section \<open>Feature-importance ranking\<close>

text \<open>
  \<^verbatim>\<open>l = list(enumerate(xgb.feature_importances_))\<close>,
  \<^verbatim>\<open>l.sort(key=lambda x: -x[1])\<close>, \<^verbatim>\<open>l[:5]\<close>.
  Python's sort is stable and ascending in the key, as \<open>sort_key\<close> is; a slice past
  the end of a list is the whole list, as \<open>take\<close> is. Importances are exact numbers.
\<close>

definition ranked :: "rat list \<Rightarrow> (nat \<times> rat) list" where
  "ranked feature_importances = sort_key (\<lambda>x. - snd x) (enumerate 0 feature_importances)"

definition top_features :: "rat list \<Rightarrow> (nat \<times> rat) list" where
  "top_features feature_importances = take 5 (ranked feature_importances)"

section \<open>The notebooks as scripts\<close>

text \<open>
  Each notebook is a straight-line script: its code cells, top to bottom, are a sequence
  of statements, and every statement is a sequence of calls evaluated in Python's order
  (arguments before the call, receiver before the method). An \<open>op\<close> is one such call or
  computation, with the literal arguments the notebook passes.
\<close>

datatype split = Train | Test

datatype op =
    Import string
  | ReadParquet string
  | TimestampMin
  | TimestampMax
  | ComputeCutoff
  | SelectUpToCutoff
  | SelectAfterCutoff
  | Sample kwargs
  | Copy
  | LoadPickle string
  | CountLabel string
  | FitTransform split
  | Ratio
  | NewClassifier string kwargs
  | Fit
  | Predict
  | ClassificationReport kwargs
  | Print
  | ConfusionMatrix
  | Display string
  | RankFeatures
  | NewDict "(string \<times> string) list"
  | SerializeTo string string

text \<open>
  A statement is a call or a \<^verbatim>\<open>try: ... except: ...\<close> block. Neither notebook has
  such a block; the constructor is there so that the language can say what the notebooks
  do not do.
\<close>

datatype stmt = Do op | TryExcept "stmt list" "stmt list"

text \<open>
  Running a script. Whether a call raises is up to the world outside (a missing file, a
  frame without the expected column, a failure inside a library): \<open>raises hist c\<close> is the
  exception that call \<open>c\<close> raises after the calls \<open>hist\<close> have completed, or \<open>None\<close>. The
  result is the calls that completed and the exception that reached the notebook runtime,
  if any. A handler runs when its body raises, and the script goes on after it.
\<close>

fun exec :: "(op list \<Rightarrow> op \<Rightarrow> 'e option) \<Rightarrow> op list \<Rightarrow> stmt \<Rightarrow> op list \<times> 'e option"
  and exec_block :: "(op list \<Rightarrow> op \<Rightarrow> 'e option) \<Rightarrow> op list \<Rightarrow> stmt list \<Rightarrow> op list \<times> 'e option"
where
  "exec raises hist (Do c) =
     (case raises hist c of None \<Rightarrow> (hist @ [c], None) | Some e \<Rightarrow> (hist, Some e))"
| "exec raises hist (TryExcept body handler) =
     (case exec_block raises hist body of
        (hist', None) \<Rightarrow> (hist', None)
      | (hist', Some e) \<Rightarrow> exec_block raises hist' handler)"
| "exec_block raises hist [] = (hist, None)"
| "exec_block raises hist (s # ss) =
     (case exec raises hist s of
        (hist', None) \<Rightarrow> exec_block raises hist' ss
      | (hist', Some e) \<Rightarrow> (hist', Some e))"

fun handler_free :: "stmt \<Rightarrow> bool" where
  "handler_free (Do c) = True"
| "handler_free (TryExcept body handler) = False"

fun calls :: "stmt \<Rightarrow> op list" and calls_block :: "stmt list \<Rightarrow> op list" where
  "calls (Do c) = [c]"
| "calls (TryExcept body handler) = calls_block body @ calls_block handler"
| "calls_block [] = []"
| "calls_block (s # ss) = calls s @ calls_block ss"

text \<open>The run in which nothing raises.\<close>

definition executed :: "stmt list \<Rightarrow> op list" where
  "executed nb = fst (exec_block (\<lambda>hist c. (None :: unit option)) [] nb)"

text \<open>
  \<^verbatim>\<open>XGBClassifier(tree_method=XGB_TREE_METHOD, n_estimators=1024, max_depth=3,
  colsample_bynode=0.3, colsample_bytree=0.3, subsample=0.3)\<close> with
  \<^verbatim>\<open>XGB_TREE_METHOD='hist'\<close>, and
  \<^verbatim>\<open>RandomForestClassifier(n_estimators=4, max_depth=8, random_state=404,
  class_weight="balanced_subsample")\<close>.
\<close>

definition xgb_kwargs :: kwargs where
  "xgb_kwargs =
     [(''tree_method'', VStr ''hist''), (''n_estimators'', VInt 1024), (''max_depth'', VInt 3),
      (''colsample_bynode'', VFrac (3 / 10)), (''colsample_bytree'', VFrac (3 / 10)),
      (''subsample'', VFrac (3 / 10))]"

definition rfc_kwargs :: kwargs where
  "rfc_kwargs =
     [(''n_estimators'', VInt 4), (''max_depth'', VInt 8), (''random_state'', VInt 404),
      (''class_weight'', VStr ''balanced_subsample'')]"

text \<open>The gradient-boosting notebook, one line per code cell.\<close>

definition xgb_notebook :: "stmt list" where
  "xgb_notebook =
     [Do (Import ''numpy''), Do (Import ''pandas''), Do (ReadParquet ''fraud-cleaned-sample.parquet''),
      Do TimestampMin, Do TimestampMax, Do ComputeCutoff, Do SelectUpToCutoff, Do (Sample sample_kwargs), Do Copy, Do SelectAfterCutoff, Do Copy,
      Do (Import ''cloudpickle''), Do (LoadPickle ''feature_pipeline.sav''),
      Do (CountLabel ''fraud''), Do (CountLabel ''legitimate''),
      Do (FitTransform Train),
      Do Ratio, Do (Display ''pct''),
      Do (Import ''xgboost''), Do (Import ''sklearn''), Do (NewClassifier ''XGBClassifier'' xgb_kwargs), Do Fit,
      Do (Import ''sklearn.metrics''), Do (FitTransform Test), Do Predict, Do (ClassificationReport []), Do Print, Do (ClassificationReport [(''output_dict'', VBool True)]),
      Do (Import ''mlworkflows''), Do ConfusionMatrix, Do (Display ''chart''),
      Do (Display ''df''),
      Do RankFeatures,
      Do (Import ''mlworkflows''), Do (NewDict [(''model'', ''xgb''), (''class_report'', ''pd.DataFrame(class_report).transpose()'')]), Do (SerializeTo ''xgb_dict'' ''xgb.sav'')]"

text \<open>
  The random-forest notebook, one line per code cell. After its last code cell comes only
  the markdown heading \<^verbatim>\<open># save model here\<close>.
\<close>

definition rf_notebook :: "stmt list" where
  "rf_notebook =
     [Do (Import ''numpy''), Do (Import ''pandas''), Do (ReadParquet ''fraud-cleaned-small.parquet''),
      Do TimestampMin, Do TimestampMax, Do ComputeCutoff, Do Copy, Do SelectUpToCutoff, Do SelectAfterCutoff,
      Do (Import ''cloudpickle''), Do (LoadPickle ''feature_pipeline.sav''),
      Do (Import ''sklearn.ensemble''), Do (Import ''sklearn''), Do (NewClassifier ''RandomForestClassifier'' rfc_kwargs), Do (FitTransform Train), Do Fit,
      Do (Import ''sklearn.metrics''), Do (FitTransform Test), Do Predict, Do (ClassificationReport []), Do Print,
      Do (Import ''mlworkflows''), Do ConfusionMatrix, Do (Display ''df''),
      Do (Display ''df'')]"

text \<open>
  The step names of the specification's system overview, in its order, and the step each
  call belongs to. Imports, copies, the class counts, the ratio, the construction of the
  classifier, printing, display, the feature ranking and the bundle literal are not among
  the named steps.
\<close>

datatype stage =
    Load_data | Split_by_time | Downsample | Load_feature_pipeline | Transform
  | Fit_classifier | Predict_stage | Score | Plot | Serialize

definition spec_sequence :: "stage list" where
  "spec_sequence =
     [Load_data, Split_by_time, Downsample, Load_feature_pipeline, Transform,
      Fit_classifier, Predict_stage, Score, Plot, Serialize]"

fun stage_of :: "op \<Rightarrow> stage option" where
  "stage_of (ReadParquet path) = Some Load_data"
| "stage_of TimestampMin = Some Split_by_time"
| "stage_of TimestampMax = Some Split_by_time"
| "stage_of ComputeCutoff = Some Split_by_time"
| "stage_of SelectUpToCutoff = Some Split_by_time"
| "stage_of SelectAfterCutoff = Some Split_by_time"
| "stage_of (Sample kw) = Some Downsample"
| "stage_of (LoadPickle path) = Some Load_feature_pipeline"
| "stage_of (FitTransform s) = Some Transform"
| "stage_of Fit = Some Fit_classifier"
| "stage_of Predict = Some Predict_stage"
| "stage_of (ClassificationReport kw) = Some Score"
| "stage_of ConfusionMatrix = Some Plot"
| "stage_of (SerializeTo v path) = Some Serialize"
| "stage_of c = None"

definition stages :: "op list \<Rightarrow> stage list" where
  "stages hist = List.map_filter stage_of hist"




section \<open>Properties of float64 rounding\<close>

lemma p2_less_iff: "(2::rat) powi m < 2 powi n \<longleftrightarrow> m < n"
proof
  assume "(2::rat) powi m < 2 powi n"
  show "m < n"
  proof (rule ccontr)
    assume "\<not> m < n"
    then have "n \<le> m" by simp
    then have "(2::rat) powi n \<le> 2 powi m" by (rule power_int_increasing) simp
    with \<open>(2::rat) powi m < 2 powi n\<close> show False by simp
  qed
next
  assume "m < n"
  then show "(2::rat) powi m < 2 powi n" by (rule power_int_strict_increasing) simp
qed

lemma p2_le_iff: "(2::rat) powi m \<le> 2 powi n \<longleftrightarrow> m \<le> n"
  using p2_less_iff [of n m] by (simp add: not_less [symmetric])

lemma p2_add: "(2::rat) powi (m + n) = 2 powi m * 2 powi n"
  by (simp add: power_int_add)

lemma p2_nat: "0 \<le> k \<Longrightarrow> (2::rat) powi k = 2 ^ nat k"
  by (simp add: power_int_def)

lemma bitlen_rat_bounds:
  assumes "0 < n"
  shows "(2::rat) powi (bitlen n - 1) \<le> of_int n" and "of_int n < (2::rat) powi (bitlen n)"
proof -
  from bitlen_bounds [OF assms]
  have lo: "2 ^ nat (bitlen n - 1) \<le> n" and hi: "n < 2 ^ nat (bitlen n)" by simp_all
  have b1: "1 \<le> bitlen n"
    using assms by (auto simp: bitlen_alt_def)
  have "(of_int (2 ^ nat (bitlen n - 1)) :: rat) \<le> of_int n"
    using lo by (simp only: of_int_le_iff)
  then show "(2::rat) powi (bitlen n - 1) \<le> of_int n"
    using b1 by (simp add: p2_nat)
  have "(of_int n :: rat) < of_int (2 ^ nat (bitlen n))"
    using hi by (simp only: of_int_less_iff)
  then show "of_int n < (2::rat) powi (bitlen n)"
    using b1 by (simp add: p2_nat)
qed

lemma ilog2_bounds:
  assumes "0 < a"
  shows "2 powi (ilog2 a) \<le> a" and "a < 2 powi (ilog2 a + 1)"
proof -
  obtain n d where q: "quotient_of a = (n, d)" by (cases "quotient_of a")
  then have d: "0 < d" by (rule quotient_of_denom_pos)
  from q have a: "a = of_int n / of_int d" by (rule quotient_of_div)
  from assms a d have n: "0 < n" by (simp add: zero_less_divide_iff)
  define k where "k = bitlen n - bitlen d"
  have nlo: "(2::rat) powi (bitlen n - 1) \<le> of_int n" and nhi: "of_int n < (2::rat) powi (bitlen n)"
    using bitlen_rat_bounds [OF n] by simp_all
  have dlo: "(2::rat) powi (bitlen d - 1) \<le> of_int d" and dhi: "of_int d < (2::rat) powi (bitlen d)"
    using bitlen_rat_bounds [OF d] by simp_all
  have dpos: "(0::rat) < of_int d" using d by simp
  have ad: "a * of_int d = of_int n" using a dpos by simp
  have up: "a < 2 powi (k + 1)"
  proof -
    have "(2::rat) powi (bitlen n) = 2 powi (k + 1) * 2 powi (bitlen d - 1)"
      unfolding k_def p2_add [symmetric] by simp
    also have "\<dots> \<le> 2 powi (k + 1) * of_int d"
      using dlo by (simp add: mult_left_mono)
    finally have "a * of_int d < 2 powi (k + 1) * of_int d"
      using nhi ad by simp
    with dpos show ?thesis by (simp add: mult_less_cancel_right)
  qed
  have low: "2 powi (k - 1) < a"
  proof -
    have "(2::rat) powi (k - 1) * of_int d < 2 powi (k - 1) * 2 powi (bitlen d)"
      using dhi by (simp add: mult_strict_left_mono)
    also have "\<dots> = 2 powi (bitlen n - 1)"
      unfolding k_def p2_add [symmetric] by simp
    also have "\<dots> \<le> a * of_int d" using nlo ad by simp
    finally show ?thesis using dpos by (simp add: mult_less_cancel_right)
  qed
  have il: "ilog2 a = (if 2 powi k \<le> a then k else k - 1)"
    unfolding ilog2_def k_def using q by simp
  show "2 powi (ilog2 a) \<le> a"
    using low by (simp add: il)
  show "a < 2 powi (ilog2 a + 1)"
    using up by (simp add: il not_le)
qed

lemma ilog2_unique:
  assumes "0 < a" "2 powi k \<le> a" "a < 2 powi (k + 1)"
  shows "ilog2 a = k"
proof -
  have "(2::rat) powi k < 2 powi (ilog2 a + 1)"
    using assms(2) ilog2_bounds(2) [OF assms(1)] by simp
  then have 1: "k < ilog2 a + 1" by (simp only: p2_less_iff)
  have "(2::rat) powi (ilog2 a) < 2 powi (k + 1)"
    using assms(3) ilog2_bounds(1) [OF assms(1)] by simp
  then have 2: "ilog2 a < k + 1" by (simp only: p2_less_iff)
  from 1 2 show ?thesis by simp
qed


lemma round_half_even_of_int: "round_half_even (of_int n) = n"
  by (simp add: round_half_even_def)

lemma round_half_even_bounds:
  "\<lfloor>z\<rfloor> \<le> round_half_even z" "round_half_even z \<le> \<lfloor>z\<rfloor> + 1"
  by (simp_all add: round_half_even_def Let_def)

lemma round_half_even_mono:
  assumes "z \<le> z'"
  shows "round_half_even z \<le> round_half_even z'"
proof (cases "\<lfloor>z\<rfloor> = \<lfloor>z'\<rfloor>")
  case True
  then show ?thesis
    using assms by (auto simp add: round_half_even_def Let_def)
next
  case False
  with assms have "\<lfloor>z\<rfloor> < \<lfloor>z'\<rfloor>"
    using floor_mono [OF assms] by simp
  then have "round_half_even z \<le> \<lfloor>z'\<rfloor>"
    using round_half_even_bounds(2) [of z] by simp
  then show ?thesis
    using round_half_even_bounds(1) [of z'] by simp
qed

lemma round_half_even_minus: "round_half_even (- z) = - round_half_even z"
proof (cases "z = of_int \<lfloor>z\<rfloor>")
  case True
  then obtain n where "z = of_int n" ..
  then have "- z = of_int (- n)" by simp
  then show ?thesis
    using \<open>z = of_int n\<close> by (simp only: round_half_even_of_int)
next
  case False
  then have fl: "\<lfloor>- z\<rfloor> = - \<lfloor>z\<rfloor> - 1"
    by (metis ceiling_altdef ceiling_def minus_minus add_uminus_conv_diff
        minus_add_distrib uminus_add_conv_diff)
  define n where "n = \<lfloor>z\<rfloor>"
  define r where "r = z - of_int n"
  have r: "0 < r" "r < 1"
    using False unfolding r_def n_def by (simp_all add: less_le) linarith+
  have r': "- z - of_int (- n - 1) = 1 - r"
    unfolding r_def by simp
  have L: "round_half_even z =
      (if r < 1 / 2 then n else if 1 / 2 < r then n + 1 else if even n then n else n + 1)"
    unfolding round_half_even_def Let_def n_def [symmetric] r_def [symmetric] ..
  have R: "round_half_even (- z) =
      (if 1 - r < 1 / 2 then - n - 1 else if 1 / 2 < 1 - r then - n - 1 + 1
       else if even (- n - 1) then - n - 1 else - n - 1 + 1)"
    unfolding round_half_even_def Let_def fl n_def [symmetric] r' ..
  consider "r < 1 / 2" | "r = 1 / 2" | "1 / 2 < r" by linarith
  then show ?thesis
  proof cases
    case 1
    then have "\<not> 1 - r < 1 / 2" "1 / 2 < 1 - r" by linarith+
    with 1 show ?thesis by (simp add: L R)
  next
    case 2
    then have "\<not> 1 - r < 1 / 2" "\<not> 1 / 2 < 1 - r" "\<not> r < 1 / 2" "\<not> 1 / 2 < r" by simp_all
    then show ?thesis by (simp add: L R)
  next
    case 3
    then have "1 - r < 1 / 2" "\<not> r < 1 / 2" by linarith+
    with 3 show ?thesis by (simp add: L R)
  qed
qed

lemma quantum_pos: "0 < quantum x"
  by (simp add: quantum_def)

lemma quantum_minus: "quantum (- x) = quantum x"
  by (simp add: quantum_def expo_def)

lemma nearest_minus: "nearest (- x) = - nearest x"
  by (simp add: nearest_def quantum_minus round_half_even_minus)

lemma p2_shift53: "(2::rat) powi (e - 52) * 2 ^ 53 = 2 powi (e + 1)"
proof -
  have "(2::rat) powi (e - 52) * 2 ^ 53 = 2 powi (e - 52) * 2 powi 53"
    by (simp only: power_int_numeral)
  also have "\<dots> = 2 powi ((e - 52) + 53)" by (rule p2_add [symmetric])
  also have "(e - 52) + 53 = e + 1" by simp
  finally show ?thesis .
qed

lemma p2_shift52: "(2::rat) powi (e - 52) * 2 ^ 52 = 2 powi e"
proof -
  have "(2::rat) powi (e - 52) * 2 ^ 52 = 2 powi (e - 52) * 2 powi 52"
    by (simp only: power_int_numeral)
  also have "\<dots> = 2 powi ((e - 52) + 52)" by (rule p2_add [symmetric])
  also have "(e - 52) + 52 = e" by simp
  finally show ?thesis .
qed

lemma quantum_scale: "quantum x * 2 ^ 53 = 2 powi (expo x + 1)"
  unfolding quantum_def by (rule p2_shift53)

lemma quantum_scale': "quantum x * 2 ^ 52 = 2 powi (expo x)"
  unfolding quantum_def by (rule p2_shift52)

lemma below_next_binade:
  assumes "0 < x"
  shows "x < 2 powi (expo x + 1)"
proof -
  have "x < 2 powi (ilog2 x + 1)" using assms by (rule ilog2_bounds(2))
  also have "\<dots> \<le> 2 powi (expo x + 1)"
    using assms by (simp add: p2_le_iff expo_def)
  finally show ?thesis .
qed

lemma nearest_pos_eq:
  assumes "0 < x"
  shows "nearest x = of_int (round_half_even (x / quantum x)) * quantum x"
  using assms by (simp add: nearest_def)

lemma nearest_upper:
  assumes "0 < x"
  shows "nearest x \<le> 2 powi (expo x + 1)"
proof -
  have "x < quantum x * 2 ^ 53"
    using below_next_binade [OF assms] by (simp only: quantum_scale)
  then have "x / quantum x < 2 ^ 53"
    using quantum_pos [of x] by (simp only: pos_divide_less_eq mult.commute)
  then have "x / quantum x \<le> of_int (2 ^ 53)"
    by simp
  then have "round_half_even (x / quantum x) \<le> round_half_even (of_int (2 ^ 53))"
    by (rule round_half_even_mono)
  then have "round_half_even (x / quantum x) \<le> 2 ^ 53"
    by (simp only: round_half_even_of_int)
  then have "(of_int (round_half_even (x / quantum x)) :: rat) \<le> of_int (2 ^ 53)"
    by (simp only: of_int_le_iff)
  then have "of_int (round_half_even (x / quantum x)) * quantum x \<le> of_int (2 ^ 53) * quantum x"
    using quantum_pos [of x] by (simp only: mult_le_cancel_right_pos)
  then have "nearest x \<le> 2 ^ 53 * quantum x"
    by (simp add: nearest_pos_eq [OF assms])
  then show ?thesis
    by (simp only: quantum_scale [symmetric] mult.commute)
qed


lemma nearest_nonneg:
  assumes "0 \<le> x"
  shows "0 \<le> nearest x"
proof (cases "x = 0")
  case True
  then show ?thesis by (simp add: nearest_def)
next
  case False
  with assms have x: "0 < x" by simp
  have "0 \<le> x / quantum x" using x quantum_pos [of x] by simp
  then have "round_half_even 0 \<le> round_half_even (x / quantum x)"
    by (rule round_half_even_mono)
  then have "0 \<le> round_half_even (x / quantum x)"
    using round_half_even_of_int [of 0] by simp
  then show ?thesis
    using quantum_pos [of x] by (simp add: nearest_pos_eq [OF x])
qed




lemma grid_fixed:
  assumes m: "0 < m" "m \<le> 2 ^ 53" and e: "- 1022 \<le> e"
  shows "nearest (of_int m * 2 powi (e - 52)) = of_int m * 2 powi (e - 52)"
proof -
  define v :: rat where "v = of_int m * 2 powi (e - 52)"
  have v: "0 < v" using m(1) by (simp add: v_def)
  have scale: "(2::rat) powi (e - 52) * 2 ^ 53 = 2 powi (e + 1)"
    by (rule p2_shift53)
  have mrat: "(of_int m :: rat) \<le> 2 ^ 53"
  proof -
    have "(of_int m :: rat) \<le> of_int (2 ^ 53)" using m(2) by (simp only: of_int_le_iff)
    then show ?thesis by simp
  qed
  have vle: "v \<le> 2 powi (e + 1)"
  proof -
    have "v \<le> 2 ^ 53 * 2 powi (e - 52)"
      unfolding v_def using mrat by (intro mult_right_mono) simp_all
    then show ?thesis by (simp only: scale [symmetric] mult.commute)
  qed
  have ex: "expo v \<le> e + 1"
  proof -
    have "(2::rat) powi (ilog2 v) \<le> 2 powi (e + 1)"
      using ilog2_bounds(1) [OF v] vle by simp
    then have "ilog2 v \<le> e + 1" by (simp only: p2_le_iff)
    then show ?thesis using v e by (simp add: expo_def)
  qed
  have "\<exists>k. v / quantum v = of_int k"
  proof (cases "expo v \<le> e")
    case True
    define j where "j = nat (e - expo v)"
    have "(2::rat) powi (e - 52) = 2 powi (expo v - 52) * 2 powi (int j)"
      unfolding p2_add [symmetric] j_def using True by simp
    then have pe: "(2::rat) powi (e - 52) = 2 ^ j * quantum v"
      by (simp add: quantum_def mult.commute)
    have vq: "v = (of_int m * 2 ^ j) * quantum v"
    proof -
      have "v = of_int m * 2 powi (e - 52)" by (rule v_def)
      also have "\<dots> = of_int m * (2 ^ j * quantum v)" by (simp only: pe)
      finally show ?thesis by (simp only: mult.assoc)
    qed
    have qnz: "quantum v \<noteq> 0" using quantum_pos [of v] by simp
    have "v / quantum v = of_int m * 2 ^ j"
      using vq qnz by (metis nonzero_mult_div_cancel_right)
    then have "v / quantum v = of_int (m * 2 ^ j)"
      by simp
    then show ?thesis ..
  next
    case False
    with ex have ev: "expo v = e + 1" by simp
    have "- 1022 < expo v" using ev e by simp
    then have il: "ilog2 v = e + 1" using v ev by (simp add: expo_def)
    have "2 powi (e + 1) \<le> v"
      using ilog2_bounds(1) [OF v] by (simp add: il)
    with vle have veq: "v = 2 powi (e + 1)" by simp
    have "quantum v * 2 ^ 52 = 2 powi (expo v)" by (rule quantum_scale')
    also have "\<dots> = 2 powi (e + 1)" by (simp only: ev)
    also have "\<dots> = v" by (rule veq [symmetric])
    finally have "quantum v * 2 ^ 52 = v" .
    then have "v / quantum v = 2 ^ 52"
      using quantum_pos [of v] by (simp add: field_simps)
    then have "v / quantum v = of_int (2 ^ 52)"
      by simp
    then show ?thesis ..
  qed
  then obtain k where k: "v / quantum v = of_int k" ..
  have "nearest v = of_int (round_half_even (v / quantum v)) * quantum v"
    using v by (rule nearest_pos_eq)
  also have "\<dots> = (v / quantum v) * quantum v"
    by (simp only: k round_half_even_of_int)
  also have "\<dots> = v" using quantum_pos [of v] by simp
  finally show ?thesis unfolding v_def .
qed



lemma nearest_certificate:
  assumes lo: "2 powi e \<le> x" and hi: "x < 2 powi (e + 1)" and e: "- 1022 \<le> e"
  shows "nearest x = of_int (round_half_even (x / 2 powi (e - 52))) * 2 powi (e - 52)"
proof -
  have "(0::rat) < 2 powi e" by simp
  from this lo have x: "0 < x" by (rule less_le_trans)
  have "ilog2 x = e" using x lo hi by (rule ilog2_unique)
  with x e have "expo x = e" by (simp add: expo_def)
  then have "quantum x = 2 powi (e - 52)" by (simp add: quantum_def)
  then show ?thesis using nearest_pos_eq [OF x] by simp
qed

lemma round_half_even_div:
  assumes "0 < q"
  shows "round_half_even (of_int p / of_int q) =
    (if 2 * (p mod q) < q then p div q
     else if q < 2 * (p mod q) then p div q + 1
     else if even (p div q) then p div q else p div q + 1)"
proof -
  have fl: "\<lfloor>(of_int p :: rat) / of_int q\<rfloor> = p div q"
    by (rule floor_divide_of_int_eq)
  have qr: "(0::rat) < of_int q" using assms by simp
  have "(of_int p :: rat) = of_int (p div q * q + p mod q)" by simp
  also have "\<dots> = of_int (p div q) * of_int q + of_int (p mod q)"
    by (simp only: of_int_add of_int_mult)
  finally have "(of_int p :: rat) / of_int q = of_int (p div q) + of_int (p mod q) / of_int q"
    using qr by (simp add: field_simps)
  then have r: "(of_int p :: rat) / of_int q - of_int (p div q) = of_int (p mod q) / of_int q"
    by simp
  have lt: "(of_int (p mod q) / of_int q < (1 / 2 :: rat)) = (2 * (p mod q) < q)"
  proof -
    have "(of_int (p mod q) / of_int q < (1 / 2 :: rat)) = ((of_int (2 * (p mod q)) :: rat) < of_int q)"
      using qr by (simp add: field_simps)
    then show ?thesis by (simp only: of_int_less_iff)
  qed
  have gt: "((1 / 2 :: rat) < of_int (p mod q) / of_int q) = (q < 2 * (p mod q))"
  proof -
    have "((1 / 2 :: rat) < of_int (p mod q) / of_int q) = ((of_int q :: rat) < of_int (2 * (p mod q)))"
      using qr by (simp add: field_simps)
    then show ?thesis by (simp only: of_int_less_iff)
  qed
  show ?thesis
    unfolding round_half_even_def Let_def fl r lt gt ..
qed

lemma round_half_even_numeral:
  "round_half_even (numeral a / numeral b) =
    (if 2 * (numeral a mod numeral b) < (numeral b :: int) then numeral a div numeral b
     else if (numeral b :: int) < 2 * (numeral a mod numeral b) then numeral a div numeral b + 1
     else if even (numeral a div numeral b :: int) then numeral a div numeral b
     else numeral a div numeral b + 1)"
  using round_half_even_div [of "numeral b" "numeral a"] by simp






lemma rn_zero: "rn 0 = Fin 0"
  by (simp add: rn_def overflow_def nearest_def)







lemma fgt_iff: "x \<noteq> QNaN \<Longrightarrow> y \<noteq> QNaN \<Longrightarrow> fgt x y = (\<not> fle x y)"
  by (simp add: fgt_def)
















section \<open>Properties of the split\<close>





















lemma overflow_minus: "overflow (- v) = fneg (overflow v)"
  by (auto simp add: overflow_def)

lemma rn_minus: "rn (- x) = fneg (rn x)"
  by (simp add: rn_def nearest_minus overflow_minus)

lemma rn_certificate:
  assumes lo: "2 powi e \<le> x" and hi: "x < 2 powi (e + 1)" and e: "- 1022 \<le> e" "e \<le> 1022"
  shows "rn x = Fin (of_int (round_half_even (x / 2 powi (e - 52))) * 2 powi (e - 52))"
proof -
  have "(0::rat) < 2 powi e" by simp
  from this lo have x: "0 < x" by (rule less_le_trans)
  have "ilog2 x = e" using x lo hi by (rule ilog2_unique)
  with x e have ex: "expo x = e" by (simp add: expo_def)
  have n: "nearest x = of_int (round_half_even (x / 2 powi (e - 52))) * 2 powi (e - 52)"
    using lo hi e(1) by (rule nearest_certificate)
  have "nearest x \<le> 2 powi (expo x + 1)" using x by (rule nearest_upper)
  also have "\<dots> \<le> 2 powi 1023" using e(2) by (simp only: ex p2_le_iff)
  also have "\<dots> < 2 ^ 1024" by simp
  finally have up: "nearest x < 2 ^ 1024" .
  have "0 \<le> nearest x" using x by (simp add: nearest_nonneg)
  then have dn: "\<not> nearest x \<le> - (2 ^ 1024)" by simp
  show ?thesis
    unfolding n [symmetric] using up dn by (simp add: rn_def overflow_def)
qed

lemma rn_int_exact:
  assumes "\<bar>k\<bar> \<le> 2 ^ 53"
  shows "rn (of_int k) = Fin (of_int k)"
proof -
  have pos: "rn (of_int j) = Fin (of_int j)" if j: "0 < j" "j \<le> 2 ^ 53" for j
  proof -
    have "nearest (of_int j * 2 powi (52 - 52)) = of_int j * 2 powi (52 - 52)"
      using j by (intro grid_fixed) simp_all
    then have n: "nearest (of_int j) = of_int j" by simp
    have "(of_int j :: rat) \<le> of_int (2 ^ 53)" using j(2) by (simp only: of_int_le_iff)
    then have "(of_int j :: rat) < 2 ^ 1024" by simp
    moreover have "\<not> (of_int j :: rat) \<le> - (2 ^ 1024)" using j(1) by simp
    ultimately show ?thesis by (simp add: rn_def overflow_def n)
  qed
  consider "0 < k" | "k = 0" | "k < 0" by linarith
  then show ?thesis
  proof cases
    case 1
    with assms show ?thesis by (intro pos) simp_all
  next
    case 2
    then show ?thesis by (simp add: rn_zero)
  next
    case 3
    with assms have "rn (of_int (- k)) = Fin (of_int (- k))" by (intro pos) simp_all
    then have "rn (- of_int k) = Fin (- of_int k)" by simp
    then have "fneg (rn (of_int k)) = Fin (- of_int k)" by (simp only: rn_minus)
    then show ?thesis by (cases "rn (of_int k)") simp_all
  qed
qed

lemma rn_numeral_exact:
  assumes "(numeral n :: int) \<le> 2 ^ 53"
  shows "rn (numeral n) = Fin (numeral n)"
  using rn_int_exact [of "numeral n"] assms by simp


lemma round_half_even_int_numeral: "round_half_even (numeral n) = numeral n"
  using round_half_even_of_int [of "numeral n"] by simp


lemma to_float64_3: "to_float64 (I64 3) = Fin 3"
  by (simp add: rn_numeral_exact)

lemma to_float64_63: "to_float64 (I64 63) = Fin 63"
  by (simp add: rn_numeral_exact)









lemma rn_2_60_130: "rn 1152921504606847106 = Fin 1152921504606847232"
proof -
  have "rn 1152921504606847106 =
      Fin (of_int (round_half_even (1152921504606847106 / 2 powi (60 - 52))) * 2 powi (60 - 52))"
    by (rule rn_certificate) simp_all
  also have "\<dots> = Fin 1152921504606847232"
    by (simp add: round_half_even_numeral round_half_even_int_numeral)
  finally show ?thesis .
qed











section \<open>Properties of the class counts and the ratio\<close>



lemma counts_partition_aux:
  "\<forall>r\<in>set train. label r = ''fraud'' \<or> label r = ''legitimate'' \<Longrightarrow>
   length (filter (\<lambda>r. label r = ''fraud'') train) +
   length (filter (\<lambda>r. label r = ''legitimate'') train) = length train"
  by (induction train) auto

lemma legit_count_zero_iff:
  "legit_count train = 0 \<longleftrightarrow> (\<forall>r\<in>set train. label r \<noteq> ''legitimate'')"
  by (simp add: legit_count_def filter_empty_conv)



text \<open>
  Claim C7. When every row of the training set is labelled "fraud" or "legitimate", the two
  class counts add up to the number of rows of the training set.
\<close>

theorem class_counts_partition:
  fixes train :: "'a frame"
  assumes "\<forall>r\<in>set train. label r = ''fraud'' \<or> label r = ''legitimate''"
  shows "fraud_count train + legit_count train = length train"
  using counts_partition_aux [OF assms] by (simp add: fraud_count_def legit_count_def)

theorem class_counts_partition_witness:
  "(let train = [\<lparr>timestamp = I64 1, label = ''fraud''\<rparr>, \<lparr>timestamp = I64 2, label = ''legitimate''\<rparr>,
                 \<lparr>timestamp = I64 3, label = ''legitimate''\<rparr>]
    in (\<forall>r\<in>set train. label r = ''fraud'' \<or> label r = ''legitimate'') \<and>
       fraud_count train + legit_count train = length train \<and> length train = 3)"
  using class_counts_partition
    [of "[\<lparr>timestamp = I64 1, label = ''fraud''\<rparr>, \<lparr>timestamp = I64 2, label = ''legitimate''\<rparr>,
          \<lparr>timestamp = I64 3, label = ''legitimate''\<rparr>]"]
  by (simp add: Let_def)

text \<open>
  Claim C8. Nothing guards the divisor of the ratio. The ratio is a finite number exactly
  when the training set has a row labelled "legitimate"; on a training set without such
  a row the divisor is zero and the division gives \<^verbatim>\<open>inf\<close>, or \<^verbatim>\<open>nan\<close> when
  there is no fraud row either.
\<close>

theorem ratio_unguarded:
  fixes train :: "'a frame"
  shows "((\<exists>q. pct train = Finite q) \<longleftrightarrow> 0 < legit_count train)
       \<and> (legit_count train = 0 \<longleftrightarrow> (\<forall>r\<in>set train. label r \<noteq> ''legitimate''))
       \<and> ((\<forall>r\<in>set train. label r \<noteq> ''legitimate'') \<longrightarrow>
            pct train = true_divide (fraud_count train) 0 \<and>
            pct train = (if fraud_count train = 0 then NaN else PosInf))"
proof (intro conjI)
  show "(\<exists>q. pct train = Finite q) \<longleftrightarrow> 0 < legit_count train"
    by (simp add: pct_def true_divide_def)
  show "legit_count train = 0 \<longleftrightarrow> (\<forall>r\<in>set train. label r \<noteq> ''legitimate'')"
    by (rule legit_count_zero_iff)
  show "(\<forall>r\<in>set train. label r \<noteq> ''legitimate'') \<longrightarrow>
            pct train = true_divide (fraud_count train) 0 \<and>
            pct train = (if fraud_count train = 0 then NaN else PosInf)"
    by (simp add: legit_count_zero_iff [symmetric] pct_def true_divide_def)
qed

theorem ratio_unguarded_witness:
  "(let train = [\<lparr>timestamp = I64 1, label = ''fraud''\<rparr>, \<lparr>timestamp = I64 2, label = ''fraud''\<rparr>]
    in (\<forall>r\<in>set train. label r \<noteq> ''legitimate'') \<and> legit_count train = 0 \<and>
       fraud_count train = 2 \<and> pct train = PosInf \<and> \<not> (\<exists>q. pct train = Finite q))"
  using ratio_unguarded
    [of "[\<lparr>timestamp = I64 1, label = ''fraud''\<rparr>, \<lparr>timestamp = I64 2, label = ''fraud''\<rparr>]"]
  by (simp add: Let_def fraud_count_def pct_def true_divide_def)

section \<open>Properties of the feature ranking\<close>

lemma set_ranked: "set (ranked imps) = set (enumerate 0 imps)"
  by (simp add: ranked_def)

lemma ranked_pairs:
  assumes "p \<in> set (ranked imps)"
  shows "fst p < length imps \<and> imps ! fst p = snd p"
  using assms by (simp add: set_ranked in_set_enumerate_eq)

lemma length_ranked: "length (ranked imps) = length imps"
  by (simp add: ranked_def)

lemma sorted_neg_iff:
  fixes f :: "'a \<Rightarrow> rat"
  shows "sorted (map (\<lambda>x. - f x) xs) = sorted_wrt (\<lambda>a b. f b \<le> f a) xs"
  by (simp add: sorted_wrt_map)

lemma ranked_sorted: "sorted_wrt (\<lambda>a b. snd b \<le> snd a) (ranked imps)"
proof -
  have "sorted (map (\<lambda>x. - snd x) (ranked imps))"
    unfolding ranked_def by (rule sorted_sort_key)
  then show ?thesis by (simp only: sorted_neg_iff)
qed

lemma mset_ranked: "mset (ranked imps) = mset (enumerate 0 imps)"
  by (simp add: ranked_def)

lemma map_snd_ranked: "map snd (ranked imps) = rev (sort imps)"
proof -
  have m: "mset (rev (map snd (ranked imps))) = mset imps"
  proof -
    have "mset (map snd (ranked imps)) = mset (map snd (enumerate 0 imps))"
      by (simp only: mset_map mset_ranked)
    then show ?thesis by simp
  qed
  have "sorted_wrt (\<lambda>a b. b \<le> a) (map snd (ranked imps))"
    using ranked_sorted [of imps] by (simp add: sorted_wrt_map)
  then have s: "sorted (rev (map snd (ranked imps)))"
    by (simp add: sorted_wrt_rev)
  have "sort imps = rev (map snd (ranked imps))"
    using m s by (rule properties_for_sort)
  then show ?thesis by simp
qed

lemma distinct_ranked_indices: "distinct (map fst (ranked imps))"
proof -
  have "mset (map fst (ranked imps)) = mset (map fst (enumerate 0 imps))"
    by (simp only: mset_map mset_ranked)
  then have "distinct (map fst (ranked imps)) = distinct (map fst (enumerate 0 imps))"
    by (rule mset_eq_imp_distinct_iff)
  then show ?thesis by simp
qed

text \<open>
  Claim C3. Every entry of the ranking is a pair of an index of the importance vector and
  the importance at that index; the entries are in non-increasing order of importance;
  their importances are the first five of the vector sorted in descending order, that is
  its five largest values; no index occurs twice; and the ranking has five entries unless
  the vector itself has fewer.
\<close>

theorem top_features_largest:
  fixes imps :: "rat list"
  shows "(\<forall>p\<in>set (top_features imps). fst p < length imps \<and> imps ! fst p = snd p)
       \<and> sorted_wrt (\<lambda>a b. snd a \<ge> snd b) (top_features imps)
       \<and> map snd (top_features imps) = take 5 (rev (sort imps))
       \<and> distinct (map fst (top_features imps))
       \<and> length (top_features imps) = min 5 (length imps)
       \<and> (length (top_features imps) < 5 \<longrightarrow> length imps < 5)"
proof -
  have pairs: "\<forall>p\<in>set (top_features imps). fst p < length imps \<and> imps ! fst p = snd p"
  proof
    fix p assume "p \<in> set (top_features imps)"
    then have "p \<in> set (ranked imps)"
      unfolding top_features_def by (rule in_set_takeD)
    then show "fst p < length imps \<and> imps ! fst p = snd p"
      by (rule ranked_pairs)
  qed
  have ordered: "sorted_wrt (\<lambda>a b. snd a \<ge> snd b) (top_features imps)"
    unfolding top_features_def using ranked_sorted by (rule sorted_wrt_take)
  have largest: "map snd (top_features imps) = take 5 (rev (sort imps))"
    by (simp add: top_features_def take_map [symmetric] map_snd_ranked)
  have indices: "distinct (map fst (top_features imps))"
    unfolding top_features_def take_map [symmetric]
    using distinct_ranked_indices by (rule distinct_take)
  have len: "length (top_features imps) = min 5 (length imps)"
    by (simp add: top_features_def length_ranked)
  have short: "length (top_features imps) < 5 \<longrightarrow> length imps < 5"
    unfolding len by linarith
  from pairs ordered largest indices len short show ?thesis
    by blast
qed

theorem top_features_largest_witness:
  "(let imps = [1/10, 3/10, 0, 3/10, 2/10, 5/100, 1/20] :: rat list
    in top_features imps = [(1, 3/10), (3, 3/10), (4, 2/10), (0, 1/10), (5, 5/100)] \<and>
       (4, 2/10) \<in> set (top_features imps) \<and> imps ! 4 = 2/10 \<and>
       map snd (top_features imps) = take 5 (rev (sort imps))) \<and>
   length (top_features [1/10, 3/10]) < 5 \<and> length [1/10, 3/10 :: rat] < 5"
  using top_features_largest [of "[1/10, 3/10, 0, 3/10, 2/10, 5/100, 1/20]"]
    top_features_largest [of "[1/10, 3/10]"]
  by (simp add: Let_def top_features_def ranked_def enumerate_eq_zip)

section \<open>Properties of the scripts\<close>

lemma handler_free_map_Do:
  "list_all handler_free ss \<Longrightarrow> ss = map Do (calls_block ss)"
proof (induction ss)
  case Nil
  then show ?case by simp
next
  case (Cons s ss)
  then show ?case by (cases s) simp_all
qed

lemma exec_block_fail:
  assumes "i < length cs"
    and "\<forall>j<i. raises (hist @ take j cs) (cs ! j) = None"
    and "raises (hist @ take i cs) (cs ! i) = Some e"
  shows "exec_block raises hist (map Do cs) = (hist @ take i cs, Some e)"
  using assms
proof (induction cs arbitrary: hist i)
  case Nil
  then show ?case by simp
next
  case (Cons c cs)
  show ?case
  proof (cases i)
    case 0
    with Cons.prems show ?thesis by simp
  next
    case (Suc k)
    from Cons.prems(2) Suc have c: "raises hist c = None" by fastforce
    have k: "k < length cs" using Cons.prems(1) Suc by simp
    have pre: "\<forall>j<k. raises ((hist @ [c]) @ take j cs) (cs ! j) = None"
    proof (intro allI impI)
      fix j assume "j < k"
      then have "Suc j < i" using Suc by simp
      with Cons.prems(2) have "raises (hist @ take (Suc j) (c # cs)) ((c # cs) ! Suc j) = None"
        by blast
      then show "raises ((hist @ [c]) @ take j cs) (cs ! j) = None" by simp
    qed
    have at: "raises ((hist @ [c]) @ take k cs) (cs ! k) = Some e"
      using Cons.prems(3) Suc by simp
    have "exec_block raises (hist @ [c]) (map Do cs) = ((hist @ [c]) @ take k cs, Some e)"
      using k pre at by (rule Cons.IH)
    with c Suc show ?thesis by simp
  qed
qed

lemma exec_block_ok:
  assumes "\<forall>j<length cs. raises (hist @ take j cs) (cs ! j) = None"
  shows "exec_block raises hist (map Do cs) = (hist @ cs, None)"
  using assms
proof (induction cs arbitrary: hist)
  case Nil
  then show ?case by simp
next
  case (Cons c cs)
  from Cons.prems have c: "raises hist c = None" by fastforce
  have "\<forall>j<length cs. raises ((hist @ [c]) @ take j cs) (cs ! j) = None"
  proof (intro allI impI)
    fix j assume "j < length cs"
    then have "Suc j < length (c # cs)" by simp
    with Cons.prems have "raises (hist @ take (Suc j) (c # cs)) ((c # cs) ! Suc j) = None"
      by blast
    then show "raises ((hist @ [c]) @ take j cs) (cs ! j) = None" by simp
  qed
  then have "exec_block raises (hist @ [c]) (map Do cs) = ((hist @ [c]) @ cs, None)"
    by (rule Cons.IH)
  with c show ?case by simp
qed

lemma exec_block_error_source:
  assumes "exec_block raises hist (map Do cs) = (hist', Some e)"
  shows "\<exists>i<length cs. hist' = hist @ take i cs \<and> raises hist' (cs ! i) = Some e"
  using assms
proof (induction cs arbitrary: hist)
  case Nil
  then show ?case by simp
next
  case (Cons c cs)
  show ?case
  proof (cases "raises hist c")
    case None
    with Cons.prems have "exec_block raises (hist @ [c]) (map Do cs) = (hist', Some e)"
      by simp
    then obtain i where "i < length cs" "hist' = (hist @ [c]) @ take i cs"
      "raises hist' (cs ! i) = Some e"
      using Cons.IH by blast
    then have "Suc i < length (c # cs) \<and> hist' = hist @ take (Suc i) (c # cs)
        \<and> raises hist' ((c # cs) ! Suc i) = Some e"
      by simp
    then show ?thesis by blast
  next
    case (Some e')
    with Cons.prems have "hist' = hist" "e' = e" by simp_all
    with Some have "0 < length (c # cs) \<and> hist' = hist @ take 0 (c # cs)
        \<and> raises hist' ((c # cs) ! 0) = Some e"
      by simp
    then show ?thesis by blast
  qed
qed


lemma try_except_recovers:
  "exec_block (\<lambda>hist c. if c = ReadParquet ''x'' then Some ''FileNotFoundError'' else None) []
     [TryExcept [Do (ReadParquet ''x'')] [Do Print], Do Fit] = ([Print, Fit], None)"
  by simp

lemma xgb_handler_free: "list_all handler_free xgb_notebook"
  by (simp add: xgb_notebook_def)

lemma rf_handler_free: "list_all handler_free rf_notebook"
  by (simp add: rf_notebook_def)

lemma executed_handler_free:
  assumes "list_all handler_free nb"
  shows "executed nb = calls_block nb"
proof -
  have "exec_block (\<lambda>hist c. (None :: unit option)) [] (map Do (calls_block nb))
      = ([] @ calls_block nb, None)"
    by (rule exec_block_ok) simp
  then show ?thesis
    using handler_free_map_Do [OF assms] by (simp add: executed_def)
qed

lemma xgb_stages:
  "stages (executed xgb_notebook) =
     [Load_data, Split_by_time, Split_by_time, Split_by_time, Split_by_time, Downsample,
      Split_by_time, Load_feature_pipeline, Transform, Fit_classifier, Transform,
      Predict_stage, Score, Score, Plot, Serialize]"
  by (simp add: executed_def xgb_notebook_def stages_def)

lemma rf_stages:
  "stages (executed rf_notebook) =
     [Load_data, Split_by_time, Split_by_time, Split_by_time, Split_by_time, Split_by_time,
      Load_feature_pipeline, Transform, Fit_classifier, Transform, Predict_stage, Score, Plot]"
  by (simp add: executed_def rf_notebook_def stages_def)

text \<open>
  Claim C4 as stated fails: the random-forest notebook has no downsample step at all, so
  the ten steps are not even a subsequence of what it executes.
\<close>

theorem rf_notebook_not_spec_sequence:
  "Downsample \<notin> set (stages (executed rf_notebook))
   \<and> \<not> subseq spec_sequence (stages (executed rf_notebook))
   \<and> stages (executed rf_notebook) \<noteq> spec_sequence"
  by (simp add: rf_stages spec_sequence_def)

text \<open>
  Claim C4, amended. The gradient-boosting notebook executes the ten steps in the stated
  order, among other calls: the test rows are selected after the training rows are
  downsampled, and the test set is transformed after the fit and before the prediction.
  The random-forest notebook executes load data, split by time, load feature pipeline,
  transform, fit classifier, predict, score and plot in that order, and no downsample
  step.
\<close>

theorem notebook_stage_order:
  "subseq spec_sequence (stages (executed xgb_notebook))
   \<and> remdups_adj (stages (executed xgb_notebook)) =
       [Load_data, Split_by_time, Downsample, Split_by_time, Load_feature_pipeline, Transform,
        Fit_classifier, Transform, Predict_stage, Score, Plot, Serialize]
   \<and> subseq [Load_data, Split_by_time, Load_feature_pipeline, Transform, Fit_classifier,
              Predict_stage, Score, Plot] (stages (executed rf_notebook))
   \<and> Downsample \<notin> set (stages (executed rf_notebook))"
  by (simp add: xgb_stages rf_stages spec_sequence_def)

text \<open>
  Claim C5 at the random-forest notebook: it executes no serialization call and builds
  no bundle, while the gradient-boosting notebook ends by building the dict with the keys
  \<^verbatim>\<open>model\<close> and \<^verbatim>\<open>class_report\<close> and writing it to \<^verbatim>\<open>xgb.sav\<close>.
\<close>

theorem rf_notebook_serializes_nothing:
  "filter (\<lambda>c. stage_of c = Some Serialize) (executed rf_notebook) = []
   \<and> filter (\<lambda>c. stage_of c = Some Serialize) (executed xgb_notebook) =
       [SerializeTo ''xgb_dict'' ''xgb.sav'']
   \<and> drop 34 (executed xgb_notebook) =
       [NewDict [(''model'', ''xgb''), (''class_report'', ''pd.DataFrame(class_report).transpose()'')],
        SerializeTo ''xgb_dict'' ''xgb.sav'']
   \<and> last (executed rf_notebook) = Display ''df''"
  by (simp add: executed_def xgb_notebook_def rf_notebook_def)

text \<open>
  Claim C6. Neither notebook contains a handler. Whatever the outside world does, when
  the first call to fail raises \<open>e\<close>, the run of the notebook ends with exactly \<open>e\<close>, having
  completed the calls before the failing one and none after it; and an exception that
  ends the run is the one raised by the call at which the run stopped.
\<close>

theorem errors_propagate:
  fixes raises :: "op list \<Rightarrow> op \<Rightarrow> 'e option"
  assumes "nb \<in> {xgb_notebook, rf_notebook}"
  shows "list_all handler_free nb
    \<and> (\<forall>i e. i < length (calls_block nb)
           \<and> (\<forall>j<i. raises (take j (calls_block nb)) (calls_block nb ! j) = None)
           \<and> raises (take i (calls_block nb)) (calls_block nb ! i) = Some e
         \<longrightarrow> exec_block raises [] nb = (take i (calls_block nb), Some e))
    \<and> (\<forall>hist e. exec_block raises [] nb = (hist, Some e)
         \<longrightarrow> (\<exists>i<length (calls_block nb).
                hist = take i (calls_block nb) \<and> raises hist (calls_block nb ! i) = Some e))"
proof -
  from assms have hf: "list_all handler_free nb"
    using xgb_handler_free rf_handler_free by auto
  define cs where "cs = calls_block nb"
  have nb: "nb = map Do cs"
    unfolding cs_def using hf by (rule handler_free_map_Do)
  have fail: "exec_block raises [] nb = (take i cs, Some e)"
    if "i < length cs" "\<forall>j<i. raises (take j cs) (cs ! j) = None"
      "raises (take i cs) (cs ! i) = Some e" for i e
    using exec_block_fail [of i cs raises "[]" e] that nb by simp
  have src: "\<exists>i<length cs. hist = take i cs \<and> raises hist (cs ! i) = Some e"
    if "exec_block raises [] nb = (hist, Some e)" for hist e
    using exec_block_error_source [of raises "[]" cs hist e] that nb by simp
  show ?thesis
    unfolding cs_def [symmetric] using hf fail src by blast
qed

theorem errors_propagate_witness:
  "xgb_notebook \<in> {xgb_notebook, rf_notebook}
   \<and> (let raises = (\<lambda>hist c. if c = ReadParquet ''fraud-cleaned-sample.parquet''
                                then Some ''FileNotFoundError'' else None)
      in raises [] (Import ''numpy'') = None
         \<and> raises [Import ''numpy''] (Import ''pandas'') = None
         \<and> raises [Import ''numpy'', Import ''pandas'']
              (ReadParquet ''fraud-cleaned-sample.parquet'') = Some ''FileNotFoundError''
         \<and> exec_block raises [] xgb_notebook =
              ([Import ''numpy'', Import ''pandas''], Some ''FileNotFoundError''))"
proof -
  let ?raises = "\<lambda>(hist :: op list) c. if c = ReadParquet ''fraud-cleaned-sample.parquet''
                                then Some ''FileNotFoundError'' else None"
  have m: "xgb_notebook \<in> {xgb_notebook, rf_notebook}" by simp
  have cs: "take 3 (calls_block xgb_notebook) =
      [Import ''numpy'', Import ''pandas'', ReadParquet ''fraud-cleaned-sample.parquet'']"
    by (simp add: xgb_notebook_def)
  have len: "2 < length (calls_block xgb_notebook)"
    by (simp add: xgb_notebook_def)
  have nth: "calls_block xgb_notebook ! 0 = Import ''numpy''"
    "calls_block xgb_notebook ! 1 = Import ''pandas''"
    "calls_block xgb_notebook ! 2 = ReadParquet ''fraud-cleaned-sample.parquet''"
    by (simp_all add: xgb_notebook_def)
  have pre: "\<forall>j<2. ?raises (take j (calls_block xgb_notebook)) (calls_block xgb_notebook ! j) = None"
  proof (intro allI impI)
    fix j :: nat assume "j < 2"
    then have "j = 0 \<or> j = 1" by auto
    then show "?raises (take j (calls_block xgb_notebook)) (calls_block xgb_notebook ! j) = None"
      using nth by auto
  qed
  have hit: "?raises (take 2 (calls_block xgb_notebook)) (calls_block xgb_notebook ! 2)
      = Some ''FileNotFoundError''"
    using nth by simp
  have stop: "exec_block ?raises [] xgb_notebook
      = (take 2 (calls_block xgb_notebook), Some ''FileNotFoundError'')"
    using errors_propagate [OF m, of ?raises] len pre hit by blast
  have t2: "take 2 (calls_block xgb_notebook) = [Import ''numpy'', Import ''pandas'']"
    by (simp add: xgb_notebook_def)
  show ?thesis
    unfolding Let_def using m stop t2 by simp
qed








end
